theory Spec2Isabelle
  imports Main
begin

section \<open>Data model shared by the stages\<close>

text \<open>
  Exceptions of the Python sources, as values. The first group are the classes of
  \<^verbatim>\<open>semantic_analyzer.py\<close>; the second group are the \<^verbatim>\<open>ValueError\<close>s raised by
  \<^verbatim>\<open>Lexical_analyzer.py\<close> and \<^verbatim>\<open>InterCodeGenerator.py\<close>, one constructor per raise site;
  the third group are the interpreter's own exceptions for a missing key, a subscript
  or comparison on the wrong kind of value, and an index out of range.
\<close>

datatype error =
    SemanticError
  | UndeclaredVariableError
  | ImmutableAssignmentError
  | TypeMismatchError
  | ReturnTypeError
  | InvalidControlFlowError
  | UninitializedVariableError
  | BorrowCheckError
  | InvalidCharacter char
  | UnclosedBlockComment
  | InvalidIntLiteral
  | BreakOutsideLoop
  | ContinueOutsideLoop
  | PyKeyError
  | PyTypeError
  | PyIndexError

text \<open>
  Type values on AST edges. The parser writes \<^verbatim>\<open>'i32'\<close>, or a dict tagged
  \<^verbatim>\<open>ReferenceType\<close>, \<^verbatim>\<open>ArrayType\<close> or \<^verbatim>\<open>TupleType\<close>, or \<^verbatim>\<open>None\<close> where no type is
  written. The analyzer builds dicts tagged \<^verbatim>\<open>ReferenceType\<close>, \<^verbatim>\<open>ArrayType\<close> and
  \<^verbatim>\<open>Tuple\<close>. Python compares dicts key by key, so the tag is part of the value:
  \<open>TupleType\<close> and \<open>Tuple\<close> are different constructors.
\<close>

datatype ty =
    TNone
  | I32
  | ReferenceType bool ty
  | ArrayType ty int
  | TupleType "ty list"
  | Tuple "ty list"

datatype binop = Lt | Le | Gt | Ge | EqEq | NotEq | Plus | Minus | Times | Divide

fun op_str :: "binop \<Rightarrow> string" where
  "op_str Lt = ''<''"
| "op_str Le = ''<=''"
| "op_str Gt = ''>''"
| "op_str Ge = ''>=''"
| "op_str EqEq = ''==''"
| "op_str NotEq = ''!=''"
| "op_str Plus = ''+''"
| "op_str Minus = ''-''"
| "op_str Times = ''*''"
| "op_str Divide = ''/''"

text \<open>The index of a tuple access: \<^verbatim>\<open>a.0\<close> carries an integer, \<^verbatim>\<open>a.x\<close> a name.\<close>

datatype tindex = IndexInt int | IndexName string

text \<open>
  The AST, with one constructor per \<^verbatim>\<open>'type'\<close> tag that \<^verbatim>\<open>Parser.py\<close> writes, and the
  fields in the order the parser writes them. Statement and expression nodes share one
  type because the consumers dispatch on the tag alone. The operator of a
  \<open>BinaryExpression\<close> is one of the ten operator lexemes that \<^verbatim>\<open>parse_comparison\<close>,
  \<^verbatim>\<open>parse_additive\<close> and \<^verbatim>\<open>parse_term\<close> accept.
\<close>

datatype node =
    Literal int
  | Identifier string
  | BinaryExpression binop node node
  | CallExpression string "node list"
  | IfExpr node node node
  | LoopExpr node
  | RefExpr bool node
  | DerefExpr node
  | IndexExpr node node
  | TupleAccess node tindex
  | ArrayLiteral "node list"
  | TupleLiteral "node list"
  | FunctionExprBlock "node list"
  | VarDecl bool string ty "node option"
  | Assignment node node
  | ExprStmt node
  | IfStmt node node "node option"
  | WhileStmt node node
  | ForStmt bool string ty node node node
  | LoopStmt node
  | ReturnStmt "node option"
  | BreakStmt "node option"
  | ContinueStmt
  | EmptyStmt
  | Block "node list"

text \<open>A parameter \<^verbatim>\<open>{'mut', 'name', 'type'}\<close>, a function declaration
  \<^verbatim>\<open>{'name', 'params', 'return_type', 'body'}\<close> and the program root, whose declarations
  \<^verbatim>\<open>parse_program\<close> builds with \<^verbatim>\<open>parse_declaration\<close> only.\<close>

datatype param = Param bool string ty

datatype fdecl = FunctionDecl string "param list" ty node

datatype program = Program "fdecl list"

fun param_mut :: "param \<Rightarrow> bool" where "param_mut (Param m n t) = m"
fun param_name :: "param \<Rightarrow> string" where "param_name (Param m n t) = n"
fun param_type :: "param \<Rightarrow> ty" where "param_type (Param m n t) = t"

fun fdecl_name :: "fdecl \<Rightarrow> string" where "fdecl_name (FunctionDecl n ps r b) = n"
fun fdecl_params :: "fdecl \<Rightarrow> param list" where "fdecl_params (FunctionDecl n ps r b) = ps"
fun fdecl_return_type :: "fdecl \<Rightarrow> ty" where "fdecl_return_type (FunctionDecl n ps r b) = r"
fun fdecl_body :: "fdecl \<Rightarrow> node" where "fdecl_body (FunctionDecl n ps r b) = b"

fun declarations :: "program \<Rightarrow> fdecl list" where "declarations (Program ds) = ds"

subsection \<open>Decimal strings\<close>

text \<open>Python's \<^verbatim>\<open>str(n)\<close> and the \<^verbatim>\<open>{n}\<close> of an f-string, for an integer.\<close>

fun digit_char :: "nat \<Rightarrow> char" where
  "digit_char d =
     (if d = 0 then CHR ''0'' else if d = 1 then CHR ''1'' else if d = 2 then CHR ''2''
      else if d = 3 then CHR ''3'' else if d = 4 then CHR ''4'' else if d = 5 then CHR ''5''
      else if d = 6 then CHR ''6'' else if d = 7 then CHR ''7'' else if d = 8 then CHR ''8''
      else CHR ''9'')"

function str_nat :: "nat \<Rightarrow> string" where
  "str_nat n = (if n < 10 then [digit_char n] else str_nat (n div 10) @ [digit_char (n mod 10)])"
  by pat_completeness auto
termination
  by (relation "measure (\<lambda>n. n)") auto

declare str_nat.simps [simp del]

definition str_int :: "int \<Rightarrow> string" where
  "str_int i = (if i < 0 then CHR ''-'' # str_nat (nat (- i)) else str_nat (nat i))"

section \<open>The quad generator (InterCodeGenerator.py)\<close>

text \<open>A field of a quadruple: \<^verbatim>\<open>None\<close>, a string, an integer, or a type dict (the
  \<^verbatim>\<open>var_type\<close> that \<^verbatim>\<open>_process_for_stmt\<close> copies into its \<^verbatim>\<open>declare\<close> quad).\<close>

datatype arg = ANone | AStr string | AInt int | ATy ty

type_synonym quad = "string \<times> arg \<times> arg \<times> arg"

fun ty_arg :: "ty \<Rightarrow> arg" where
  "ty_arg TNone = ANone"
| "ty_arg I32 = AStr ''i32''"
| "ty_arg t = ATy t"

text \<open>A loop context dict; \<^verbatim>\<open>result_temp\<close> is present for loop expressions only.\<close>

record loop_info =
  start_label :: string
  end_label :: string
  result_temp :: "string option"

text \<open>The generator instance. The top of \<open>loop_stack\<close> is the head of the list.\<close>

record generator =
  ast :: program
  quadruples :: "quad list"
  temp_counter :: nat
  label_counter :: nat
  loop_stack :: "loop_info list"
  current_function :: "string option"

text \<open>
  A method of the generator takes the instance and gives back a value or the exception
  it raised, together with the instance as the method left it: an exception does not
  undo the appends made before it.
\<close>

type_synonym 'a gen = "generator \<Rightarrow> (error + 'a) \<times> generator"

definition greturn :: "'a \<Rightarrow> 'a gen" where
  "greturn v = (\<lambda>g. (Inr v, g))"

definition gbind :: "'a gen \<Rightarrow> ('a \<Rightarrow> 'b gen) \<Rightarrow> 'b gen" where
  "gbind m f = (\<lambda>g. case m g of (Inl e, g') \<Rightarrow> (Inl e, g') | (Inr v, g') \<Rightarrow> f v g')"

definition emit :: "quad \<Rightarrow> unit gen" where
  "emit q = (\<lambda>g. (Inr (), g\<lparr>quadruples := quadruples g @ [q]\<rparr>))"

definition reset :: "generator \<Rightarrow> generator" where
  "reset g = g\<lparr>quadruples := [], temp_counter := 0, label_counter := 0,
               loop_stack := [], current_function := None\<rparr>"

definition new_temp :: "string gen" where
  "new_temp = (\<lambda>g. (Inr (CHR ''t'' # str_nat (temp_counter g)),
                     g\<lparr>temp_counter := temp_counter g + 1\<rparr>))"

definition new_label :: "string gen" where
  "new_label = (\<lambda>g. (Inr (CHR ''L'' # str_nat (label_counter g)),
                      g\<lparr>label_counter := label_counter g + 1\<rparr>))"

definition push_loop :: "loop_info \<Rightarrow> unit gen" where
  "push_loop c = (\<lambda>g. (Inr (), g\<lparr>loop_stack := c # loop_stack g\<rparr>))"

definition pop_loop :: "unit gen" where
  "pop_loop = (\<lambda>g. case loop_stack g of
                      [] \<Rightarrow> (Inl PyIndexError, g)
                    | c # cs \<Rightarrow> (Inr (), g\<lparr>loop_stack := cs\<rparr>))"

definition label_quad :: "string \<Rightarrow> quad" where
  "label_quad l = (l @ '':'', ANone, ANone, ANone)"

fun tindex_arg :: "tindex \<Rightarrow> arg" where
  "tindex_arg (IndexInt i) = AInt i"
| "tindex_arg (IndexName n) = AStr n"

text \<open>
  \<^verbatim>\<open>_process_expr\<close> with the expression methods it dispatches to, one equation per tag.
  The value is the name holding the result; \<^verbatim>\<open>None\<close> for a tag the dispatch does not
  list, which includes \<open>FunctionExprBlock\<close>. The loops over call arguments and over
  the elements of array and tuple literals are the three list functions.
\<close>

fun process_expr :: "node \<Rightarrow> arg gen"
  and process_call_args :: "node list \<Rightarrow> unit gen"
  and process_array_elements :: "string \<Rightarrow> nat \<Rightarrow> node list \<Rightarrow> unit gen"
  and process_tuple_elements :: "string \<Rightarrow> nat \<Rightarrow> node list \<Rightarrow> unit gen"
where
  "process_expr (BinaryExpression bop l r) =
     gbind (process_expr l) (\<lambda>left.
     gbind (process_expr r) (\<lambda>right.
     gbind new_temp (\<lambda>temp.
     gbind (emit (op_str bop, left, right, AStr temp)) (\<lambda>_.
     greturn (AStr temp)))))"
| "process_expr (CallExpression callee args) =
     gbind (process_call_args args) (\<lambda>_.
     gbind new_temp (\<lambda>result.
     gbind (emit (''call'', AStr callee, AInt (int (length args)), AStr result)) (\<lambda>_.
     greturn (AStr result))))"
| "process_expr (Identifier name) = greturn (AStr name)"
| "process_expr (Literal v) = greturn (AStr (str_int v))"
| "process_expr (IfExpr c then_expr else_expr) =
     gbind (process_expr c) (\<lambda>cond.
     gbind new_label (\<lambda>else_label.
     gbind new_label (\<lambda>end_label.
     gbind new_temp (\<lambda>result_temp.
     gbind (emit (''ifz'', cond, ANone, AStr else_label)) (\<lambda>_.
     gbind (process_expr then_expr) (\<lambda>then_value.
     gbind (emit (''='', then_value, ANone, AStr result_temp)) (\<lambda>_.
     gbind (emit (''goto'', ANone, ANone, AStr end_label)) (\<lambda>_.
     gbind (emit (label_quad else_label)) (\<lambda>_.
     gbind (process_expr else_expr) (\<lambda>else_value.
     gbind (emit (''='', else_value, ANone, AStr result_temp)) (\<lambda>_.
     gbind (emit (label_quad end_label)) (\<lambda>_.
     greturn (AStr result_temp)))))))))))))"
| "process_expr (LoopExpr body) =
     gbind new_label (\<lambda>start.
     gbind new_label (\<lambda>end.
     gbind new_temp (\<lambda>result_temp.
     gbind (push_loop \<lparr>start_label = start, end_label = end,
                       result_temp = Some result_temp\<rparr>) (\<lambda>_.
     gbind (emit (label_quad start)) (\<lambda>_.
     gbind (process_expr body) (\<lambda>_.
     gbind (emit (''goto'', ANone, ANone, AStr start)) (\<lambda>_.
     gbind (emit (label_quad end)) (\<lambda>_.
     gbind pop_loop (\<lambda>_.
     greturn (AStr result_temp))))))))))"
| "process_expr (DerefExpr e) =
     gbind (process_expr e) (\<lambda>operand.
     gbind new_temp (\<lambda>temp.
     gbind (emit (''*'', operand, ANone, AStr temp)) (\<lambda>_.
     greturn (AStr temp))))"
| "process_expr (RefExpr is_mut e) =
     gbind (process_expr e) (\<lambda>operand.
     gbind new_temp (\<lambda>temp.
     gbind (emit (''&'', operand, AStr (if is_mut then ''mut'' else ''const''), AStr temp)) (\<lambda>_.
     greturn (AStr temp))))"
| "process_expr (IndexExpr t i) =
     gbind (process_expr t) (\<lambda>target.
     gbind (process_expr i) (\<lambda>index.
     gbind new_temp (\<lambda>temp.
     gbind (emit (''[]'', target, index, AStr temp)) (\<lambda>_.
     greturn (AStr temp)))))"
| "process_expr (TupleAccess t idx) =
     gbind (process_expr t) (\<lambda>target.
     gbind new_temp (\<lambda>temp.
     gbind (emit (''tuple[]'', target, tindex_arg idx, AStr temp)) (\<lambda>_.
     greturn (AStr temp))))"
| "process_expr (ArrayLiteral elements) =
     gbind new_temp (\<lambda>array_temp.
     gbind (emit (''new_array'', AInt (int (length elements)), ANone, AStr array_temp)) (\<lambda>_.
     gbind (process_array_elements array_temp 0 elements) (\<lambda>_.
     greturn (AStr array_temp))))"
| "process_expr (TupleLiteral elements) =
     gbind new_temp (\<lambda>tuple_temp.
     gbind (emit (''new_tuple'', AInt (int (length elements)), ANone, AStr tuple_temp)) (\<lambda>_.
     gbind (process_tuple_elements tuple_temp 0 elements) (\<lambda>_.
     greturn (AStr tuple_temp))))"
| "process_expr _ = greturn ANone"
| "process_call_args [] = greturn ()"
| "process_call_args (a # as) =
     gbind (process_expr a) (\<lambda>arg_value.
     gbind (emit (''param'', arg_value, ANone, ANone)) (\<lambda>_.
     process_call_args as))"
| "process_array_elements array_temp i [] = greturn ()"
| "process_array_elements array_temp i (element # rest) =
     gbind (process_expr element) (\<lambda>element_value.
     gbind (emit (''[]='', AStr array_temp, AInt (int i), element_value)) (\<lambda>_.
     process_array_elements array_temp (i + 1) rest))"
| "process_tuple_elements tuple_temp i [] = greturn ()"
| "process_tuple_elements tuple_temp i (element # rest) =
     gbind (process_expr element) (\<lambda>element_value.
     gbind (emit (''tuple[]='', AStr tuple_temp, AInt (int i), element_value)) (\<lambda>_.
     process_tuple_elements tuple_temp (i + 1) rest))"


text \<open>\<^verbatim>\<open>_process_return_stmt\<close>, on the \<^verbatim>\<open>expression\<close> field of the statement.\<close>

definition process_return_stmt :: "node option \<Rightarrow> unit gen" where
  "process_return_stmt expression = (case expression of
       Some e \<Rightarrow> gbind (process_expr e) (\<lambda>expr. emit (''return'', expr, ANone, ANone))
     | None \<Rightarrow> emit (''return'', ANone, ANone, ANone))"

text \<open>\<^verbatim>\<open>_process_break_stmt\<close> and \<^verbatim>\<open>_process_continue_stmt\<close>: a jump to a label of the
  innermost loop context, or \<^verbatim>\<open>ValueError\<close> when the stack is empty.\<close>

definition process_break_stmt :: "unit gen" where
  "process_break_stmt = (\<lambda>g. case loop_stack g of
       [] \<Rightarrow> (Inl BreakOutsideLoop, g)
     | loop_info # _ \<Rightarrow> emit (''goto'', ANone, ANone, AStr (end_label loop_info)) g)"

definition process_continue_stmt :: "unit gen" where
  "process_continue_stmt = (\<lambda>g. case loop_stack g of
       [] \<Rightarrow> (Inl ContinueOutsideLoop, g)
     | loop_info # _ \<Rightarrow> emit (''goto'', ANone, ANone, AStr (start_label loop_info)) g)"

text \<open>\<^verbatim>\<open>_process_variable_decl\<close>, on the fields \<^verbatim>\<open>mut\<close>, \<^verbatim>\<open>name\<close> and \<^verbatim>\<open>init\<close> of the
  declaration: the fourth field of the \<^verbatim>\<open>declare\<close> quad is always \<^verbatim>\<open>None\<close>.\<close>

definition process_variable_decl :: "bool \<Rightarrow> string \<Rightarrow> node option \<Rightarrow> unit gen" where
  "process_variable_decl is_mut var_name init =
     gbind (emit (''declare'', AStr var_name, AStr (if is_mut then ''mut'' else ''const''), ANone)) (\<lambda>_.
     case init of
       None \<Rightarrow> greturn ()
     | Some e \<Rightarrow> gbind (process_expr e) (\<lambda>init_value.
                  emit (''='', init_value, ANone, AStr var_name)))"

text \<open>\<^verbatim>\<open>_process_assignment\<close>, on the fields \<^verbatim>\<open>target\<close> and \<^verbatim>\<open>value\<close>: the right-hand
  side first, then one quad chosen by the tag of the target; no quad for any other
  target.\<close>

definition process_assignment :: "node \<Rightarrow> node \<Rightarrow> unit gen" where
  "process_assignment target v =
     gbind (process_expr v) (\<lambda>val.
     case target of
       Identifier target_name \<Rightarrow> emit (''='', val, ANone, AStr target_name)
     | IndexExpr t i \<Rightarrow>
         gbind (process_expr t) (\<lambda>array.
         gbind (process_expr i) (\<lambda>index.
         emit (''[]='', array, index, val)))
     | TupleAccess t idx \<Rightarrow>
         gbind (process_expr t) (\<lambda>tuple_var.
         emit (''tuple[]='', tuple_var, tindex_arg idx, val))
     | DerefExpr e \<Rightarrow>
         gbind (process_expr e) (\<lambda>ptr.
         emit (''*='', ptr, ANone, val))
     | _ \<Rightarrow> greturn ())"

text \<open>
  The statement methods. \<^verbatim>\<open>_process_block\<close> walks the elements of a
  \<open>FunctionExprBlock\<close> with \<^verbatim>\<open>_process_elements\<close> and the statements of a \<open>Block\<close>
  with \<^verbatim>\<open>_process_statement\<close>, and does nothing for any other node (the \<open>IfStmt\<close> of an
  \<^verbatim>\<open>else if\<close> included). \<^verbatim>\<open>_process_elements\<close> compares the tag with
  \<^verbatim>\<open>'VariableDecl'\<close>, a tag the parser never writes (it writes \<^verbatim>\<open>'VarDecl'\<close>), so that
  branch is not reached and a \<open>VarDecl\<close> falls through the chain like every tag that is
  not listed; \<^verbatim>\<open>_process_statement\<close> has no branch for declarations at all.
  Each statement method is handed the fields of the node it was dispatched on.
\<close>

function (sequential) process_block :: "node \<Rightarrow> unit gen"
  and process_each_element :: "node list \<Rightarrow> unit gen"
  and process_each_statement :: "node list \<Rightarrow> unit gen"
  and process_elements :: "node \<Rightarrow> unit gen"
  and process_statement :: "node \<Rightarrow> unit gen"
  and process_if_stmt :: "node \<Rightarrow> node \<Rightarrow> node option \<Rightarrow> unit gen"
  and process_while_stmt :: "node \<Rightarrow> node \<Rightarrow> unit gen"
  and process_for_stmt :: "bool \<Rightarrow> string \<Rightarrow> ty \<Rightarrow> node \<Rightarrow> node \<Rightarrow> node \<Rightarrow> unit gen"
  and process_loop_stmt :: "node \<Rightarrow> unit gen"
where
  "process_block block = (case block of
       FunctionExprBlock elements \<Rightarrow> process_each_element elements
     | Block statements \<Rightarrow> process_each_statement statements
     | _ \<Rightarrow> greturn ())"
| "process_each_element [] = greturn ()"
| "process_each_element (element # rest) =
     gbind (process_elements element) (\<lambda>_. process_each_element rest)"
| "process_each_statement [] = greturn ()"
| "process_each_statement (stmt # rest) =
     gbind (process_statement stmt) (\<lambda>_. process_each_statement rest)"
| "process_elements element = (case element of
       ExprStmt e \<Rightarrow> gbind (process_expr e) (\<lambda>_. greturn ())
     | Assignment t v \<Rightarrow> process_assignment t v
     | IfStmt c t e \<Rightarrow> process_if_stmt c t e
     | WhileStmt c b \<Rightarrow> process_while_stmt c b
     | ForStmt m v vt s e b \<Rightarrow> process_for_stmt m v vt s e b
     | LoopStmt b \<Rightarrow> process_loop_stmt b
     | ReturnStmt e \<Rightarrow> process_return_stmt e
     | BreakStmt e \<Rightarrow> process_break_stmt
     | ContinueStmt \<Rightarrow> process_continue_stmt
     | Block statements \<Rightarrow> process_each_statement statements
     | _ \<Rightarrow> greturn ())"
| "process_statement stmt = (case stmt of
       EmptyStmt \<Rightarrow> greturn ()
     | ExprStmt e \<Rightarrow> gbind (process_expr e) (\<lambda>_. greturn ())
     | Assignment t v \<Rightarrow> process_assignment t v
     | IfStmt c t e \<Rightarrow> process_if_stmt c t e
     | WhileStmt c b \<Rightarrow> process_while_stmt c b
     | ForStmt m v vt s e b \<Rightarrow> process_for_stmt m v vt s e b
     | LoopStmt b \<Rightarrow> process_loop_stmt b
     | ReturnStmt e \<Rightarrow> process_return_stmt e
     | BreakStmt e \<Rightarrow> process_break_stmt
     | ContinueStmt \<Rightarrow> process_continue_stmt
     | Block statements \<Rightarrow> process_block stmt
     | _ \<Rightarrow> greturn ())"
| "process_if_stmt c then_block else_block =
     gbind (process_expr c) (\<lambda>cond.
     gbind new_label (\<lambda>else_label.
     gbind new_label (\<lambda>end_label.
     gbind (emit (''ifz'', cond, ANone, AStr else_label)) (\<lambda>_.
     gbind (process_block then_block) (\<lambda>_.
     gbind (emit (''goto'', ANone, ANone, AStr end_label)) (\<lambda>_.
     gbind (emit (label_quad else_label)) (\<lambda>_.
     gbind (case else_block of None \<Rightarrow> greturn () | Some b \<Rightarrow> process_block b) (\<lambda>_.
     emit (label_quad end_label)))))))))"
| "process_while_stmt c body =
     gbind new_label (\<lambda>start.
     gbind new_label (\<lambda>end.
     gbind (push_loop \<lparr>start_label = start, end_label = end, result_temp = None\<rparr>) (\<lambda>_.
     gbind (emit (label_quad start)) (\<lambda>_.
     gbind (process_expr c) (\<lambda>cond.
     gbind (emit (''ifz'', cond, ANone, AStr end)) (\<lambda>_.
     gbind (process_block body) (\<lambda>_.
     gbind (emit (''goto'', ANone, ANone, AStr start)) (\<lambda>_.
     gbind (emit (label_quad end)) (\<lambda>_.
     pop_loop)))))))))"
| "process_for_stmt is_mut var_name var_type s e body =
     gbind (process_expr s) (\<lambda>start_value.
     gbind (process_expr e) (\<lambda>end_value.
     gbind new_label (\<lambda>start.
     gbind new_label (\<lambda>end.
     gbind (push_loop \<lparr>start_label = start, end_label = end, result_temp = None\<rparr>) (\<lambda>_.
     gbind (emit (''declare'', AStr var_name, AStr (if is_mut then ''mut'' else ''const''),
                  ty_arg var_type)) (\<lambda>_.
     gbind (emit (''='', start_value, ANone, AStr var_name)) (\<lambda>_.
     gbind (emit (label_quad start)) (\<lambda>_.
     gbind new_temp (\<lambda>temp.
     gbind (emit (''<'', AStr var_name, end_value, AStr temp)) (\<lambda>_.
     gbind (emit (''ifz'', AStr temp, ANone, AStr end)) (\<lambda>_.
     gbind (process_block body) (\<lambda>_.
     gbind new_temp (\<lambda>inc_temp.
     gbind (emit (''+'', AStr var_name, AStr ''1'', AStr inc_temp)) (\<lambda>_.
     gbind (emit (''='', AStr inc_temp, ANone, AStr var_name)) (\<lambda>_.
     gbind (emit (''goto'', ANone, ANone, AStr start)) (\<lambda>_.
     gbind (emit (label_quad end)) (\<lambda>_.
     pop_loop)))))))))))))))))"
| "process_loop_stmt body =
     gbind new_label (\<lambda>start.
     gbind new_label (\<lambda>end.
     gbind (push_loop \<lparr>start_label = start, end_label = end, result_temp = None\<rparr>) (\<lambda>_.
     gbind (emit (label_quad start)) (\<lambda>_.
     gbind (process_block body) (\<lambda>_.
     gbind (emit (''goto'', ANone, ANone, AStr start)) (\<lambda>_.
     gbind (emit (label_quad end)) (\<lambda>_.
     pop_loop)))))))"
  by pat_completeness auto

text \<open>Every call goes to a part of the node, or hands the same node from a
  dispatcher to the method it selects.\<close>

termination
  by (relation "measure (case_sum
        (case_sum (case_sum (\<lambda>b. 2 * size b) (\<lambda>es. 2 * size_list size es))
                  (case_sum (\<lambda>ss. 2 * size_list size ss) (\<lambda>e. 2 * size e + 1)))
        (case_sum (case_sum (\<lambda>s. 2 * size s + 1)
                            (\<lambda>(c, t, e). 2 * (size t + (case e of None \<Rightarrow> 0 | Some b \<Rightarrow> size b) + 1)))
                  (case_sum (\<lambda>(c, b). 2 * (size b + 1))
                            (case_sum (\<lambda>(m, v, vt, s, e, b). 2 * (size b + 1))
                                      (\<lambda>b. 2 * (size b + 1))))))")
     (auto split: option.splits)

declare process_block.simps [simp del] process_elements.simps [simp del]
  process_statement.simps [simp del] process_if_stmt.simps [simp del]
  process_while_stmt.simps [simp del] process_for_stmt.simps [simp del]
  process_loop_stmt.simps [simp del]

text \<open>\<^verbatim>\<open>_process_parameter\<close>, and the loop over the parameters.\<close>

definition process_parameter :: "param \<Rightarrow> unit gen" where
  "process_parameter p = emit (''param'', AStr (param_name p), ANone, ANone)"

fun process_each_parameter :: "param list \<Rightarrow> unit gen" where
  "process_each_parameter [] = greturn ()"
| "process_each_parameter (p # ps) =
     gbind (process_parameter p) (\<lambda>_. process_each_parameter ps)"

text \<open>
  \<^verbatim>\<open>_process_function\<close>. The test for a missing return looks at \<^verbatim>\<open>self.quadruples\<close>,
  the list of the whole program so far, not at the quads of this function.
\<close>

definition set_current_function :: "string option \<Rightarrow> unit gen" where
  "set_current_function f = (\<lambda>g. (Inr (), g\<lparr>current_function := f\<rparr>))"

definition has_return :: "quad list \<Rightarrow> bool" where
  "has_return qs = list_ex (\<lambda>q. fst q = ''return'') qs"

definition append_default_return :: "unit gen" where
  "append_default_return = (\<lambda>g.
     if \<not> has_return (quadruples g) then emit (''return'', ANone, ANone, ANone) g
     else (Inr (), g))"

fun process_function :: "fdecl \<Rightarrow> unit gen" where
  "process_function (FunctionDecl func_name params return_type body) =
     gbind (set_current_function (Some func_name)) (\<lambda>_.
     gbind (emit (label_quad func_name)) (\<lambda>_.
     gbind (process_each_parameter params) (\<lambda>_.
     gbind (process_block body) (\<lambda>_.
     gbind append_default_return (\<lambda>_.
     set_current_function None)))))"

text \<open>\<^verbatim>\<open>_process_program\<close> with \<^verbatim>\<open>_process_declaration\<close>: every declaration of a parsed
  program is a function declaration.\<close>

fun process_each_declaration :: "fdecl list \<Rightarrow> unit gen" where
  "process_each_declaration [] = greturn ()"
| "process_each_declaration (d # ds) =
     gbind (process_function d) (\<lambda>_. process_each_declaration ds)"

definition process_program :: "program \<Rightarrow> unit gen" where
  "process_program p = process_each_declaration (declarations p)"

text \<open>\<^verbatim>\<open>generate\<close>: reset, traverse, return the quad list. The second component is the
  instance after the call.\<close>

definition generate :: "generator \<Rightarrow> (error + quad list) \<times> generator" where
  "generate g = (case process_program (ast (reset g)) (reset g) of
                   (Inl e, g') \<Rightarrow> (Inl e, g')
                 | (Inr _, g') \<Rightarrow> (Inr (quadruples g'), g'))"

text \<open>The constructor \<^verbatim>\<open>QuadrupleGenerator(ast)\<close> and the shortcut
  \<^verbatim>\<open>generate_quadruples\<close>.\<close>

definition QuadrupleGenerator :: "program \<Rightarrow> generator" where
  "QuadrupleGenerator a = \<lparr>ast = a, quadruples = [], temp_counter = 0, label_counter = 0,
                            loop_stack = [], current_function = None\<rparr>"

definition generate_quadruples :: "program \<Rightarrow> error + quad list" where
  "generate_quadruples a = fst (generate (QuadrupleGenerator a))"


section \<open>Properties of the quad generator\<close>

subsection \<open>Label names are distinct\<close>

definition lab :: "nat \<Rightarrow> string" where
  "lab k = CHR ''L'' # str_nat k"

fun digit_val :: "char \<Rightarrow> nat" where
  "digit_val c = of_char c - 48"

definition str_val :: "string \<Rightarrow> nat" where
  "str_val s = foldl (\<lambda>a c. 10 * a + digit_val c) 0 s"

lemma digit_val_digit_char: "d < 10 \<Longrightarrow> digit_val (digit_char d) = d"
proof -
  assume "d < 10"
  then consider "d = 0" | "d = 1" | "d = 2" | "d = 3" | "d = 4" | "d = 5" | "d = 6" | "d = 7" | "d = 8" | "d = 9"
    by atomize_elim arith
  then show ?thesis by cases simp_all
qed

lemma str_val_str_nat: "str_val (str_nat n) = n"
proof (induction n rule: str_nat.induct)
  case (1 n)
  show ?case
  proof (cases "n < 10")
    case True
    then show ?thesis
      using digit_val_digit_char [of n] by (simp add: str_nat.simps [of n] str_val_def del: digit_val.simps digit_char.simps)
  next
    case False
    then have "str_val (str_nat (n div 10)) = n div 10" using 1 by simp
    moreover have "digit_val (digit_char (n mod 10)) = n mod 10"
      by (rule digit_val_digit_char) simp
    ultimately show ?thesis using False
      by (simp add: str_nat.simps [of n] str_val_def del: digit_val.simps digit_char.simps)
  qed
qed

lemma str_nat_inj: "str_nat a = str_nat b \<Longrightarrow> a = b"
  by (metis str_val_str_nat)

lemma lab_inj [simp]: "lab a = lab b \<longleftrightarrow> a = b"
  by (auto simp: lab_def dest: str_nat_inj)

subsection \<open>Labels and jumps of a run\<close>

text \<open>
  A label quad is a quad whose operator ends with a colon and whose other fields are
  absent; a jump is a \<^verbatim>\<open>goto\<close> or \<^verbatim>\<open>ifz\<close> quad. A list of quads is well formed for a set
  \<open>A\<close> of label numbers and a set \<open>E\<close> of outer label names when its label quads are
  pairwise different and numbered in \<open>A\<close>, and every jump goes to one of its own labels
  or to a name in \<open>E\<close>. A run that returns appends a well-formed list for the label
  numbers it allocated and the labels of the enclosing loops, and leaves the loop stack
  as it found it.
\<close>

definition is_label_quad :: "quad \<Rightarrow> bool" where
  "is_label_quad q \<longleftrightarrow> (case q of (opr, a1, a2, r) \<Rightarrow>
      a1 = ANone \<and> a2 = ANone \<and> r = ANone \<and> opr \<noteq> [] \<and> last opr = CHR '':'')"

definition label_defs :: "quad list \<Rightarrow> string list" where
  "label_defs qs = map (\<lambda>q. butlast (fst q)) (filter is_label_quad qs)"

definition is_jump :: "quad \<Rightarrow> bool" where
  "is_jump q \<longleftrightarrow> fst q = ''goto'' \<or> fst q = ''ifz''"

definition jump_targets :: "quad list \<Rightarrow> arg list" where
  "jump_targets qs = map (\<lambda>q. snd (snd (snd q))) (filter is_jump qs)"

definition wfs :: "nat set \<Rightarrow> string set \<Rightarrow> quad list \<Rightarrow> bool" where
  "wfs A E seg \<longleftrightarrow> distinct (label_defs seg) \<and> set (label_defs seg) \<subseteq> lab ` A \<and>
     set (jump_targets seg) \<subseteq> AStr ` (set (label_defs seg) \<union> E)"

definition stack_labels :: "loop_info list \<Rightarrow> string set" where
  "stack_labels ls = (\<Union>c\<in>set ls. {start_label c, end_label c})"

definition run_ok :: "generator \<Rightarrow> generator \<Rightarrow> bool" where
  "run_ok g g' \<longleftrightarrow>
     (\<exists>seg. quadruples g' = quadruples g @ seg \<and>
            wfs {label_counter g ..< label_counter g'} (stack_labels (loop_stack g)) seg) \<and>
     loop_stack g' = loop_stack g \<and> label_counter g \<le> label_counter g'"

definition tr :: "'a gen \<Rightarrow> bool" where
  "tr m \<longleftrightarrow> (\<forall>g v g'. m g = (Inr v, g') \<longrightarrow> run_ok g g')"

lemma label_defs_simps [simp]:
  "label_defs [] = []"
  "label_defs (q # qs) = (if is_label_quad q then butlast (fst q) # label_defs qs else label_defs qs)"
  "label_defs (xs @ ys) = label_defs xs @ label_defs ys"
  by (simp_all add: label_defs_def)

lemma jump_targets_simps [simp]:
  "jump_targets [] = []"
  "jump_targets (q # qs) = (if is_jump q then snd (snd (snd q)) # jump_targets qs else jump_targets qs)"
  "jump_targets (xs @ ys) = jump_targets xs @ jump_targets ys"
  by (simp_all add: jump_targets_def)

lemma is_label_quad_label [simp]: "is_label_quad (label_quad l)"
  by (simp add: is_label_quad_def label_quad_def)

lemma butlast_label [simp]: "butlast (fst (label_quad l)) = l"
  by (simp add: label_quad_def)

lemma not_jump_label [simp]: "\<not> is_jump (label_quad l)"
proof -
  have "last (l @ '':'') = CHR '':''" by simp
  then have "l @ '':'' \<noteq> ''goto''" "l @ '':'' \<noteq> ''ifz''" by auto
  then show ?thesis by (simp add: is_jump_def label_quad_def)
qed

lemma is_label_quad_result [simp]: "\<not> is_label_quad (opr, a1, a2, AStr r)"
  by (simp add: is_label_quad_def)

lemma is_label_quad_arg1 [simp]: "\<not> is_label_quad (opr, AStr a, a2, r)"
  by (simp add: is_label_quad_def)

lemma op_str_plain [simp]: "\<not> is_jump (op_str b, a1, a2, r)"
  by (cases b) (simp_all add: is_jump_def)

lemma wfs_Nil [simp]: "wfs A E []"
  by (simp add: wfs_def)

lemma wfs_append:
  assumes "wfs A E xs" "wfs B E ys" "A \<inter> B = {}"
  shows "wfs (A \<union> B) E (xs @ ys)"
proof -
  have "set (label_defs xs) \<inter> set (label_defs ys) = {}"
  proof (rule ccontr)
    assume "set (label_defs xs) \<inter> set (label_defs ys) \<noteq> {}"
    then obtain x where x: "x \<in> set (label_defs xs)" "x \<in> set (label_defs ys)" by blast
    from x(1) assms(1) obtain a where a: "a \<in> A" "x = lab a" by (auto simp: wfs_def)
    from x(2) assms(2) obtain b where b: "b \<in> B" "x = lab b" by (auto simp: wfs_def)
    from a b have "a = b" by simp
    with a b assms(3) show False by blast
  qed
  moreover have "set (label_defs xs) \<subseteq> lab ` (A \<union> B)" "set (label_defs ys) \<subseteq> lab ` (A \<union> B)"
    using assms(1,2) by (auto simp: wfs_def)
  moreover have "set (jump_targets xs) \<subseteq> AStr ` (set (label_defs xs) \<union> set (label_defs ys) \<union> E)"
    "set (jump_targets ys) \<subseteq> AStr ` (set (label_defs xs) \<union> set (label_defs ys) \<union> E)"
    using assms(1,2) by (auto simp: wfs_def)
  ultimately show ?thesis using assms(1,2) by (simp add: wfs_def Un_assoc)
qed

lemma wfs_mono: "wfs A E xs \<Longrightarrow> A \<subseteq> A' \<Longrightarrow> E \<subseteq> E' \<Longrightarrow> wfs A' E' xs"
  unfolding wfs_def by (intro conjI; blast)

lemma wfs_close: "wfs A E' xs \<Longrightarrow> E' \<subseteq> E \<union> set (label_defs xs) \<Longrightarrow> wfs A E xs"
  unfolding wfs_def by (intro conjI; blast)

lemma wfs_label: "wfs {k} E [label_quad (lab k)]"
  by (simp add: wfs_def)

lemma wfs_plain: "\<not> is_label_quad q \<Longrightarrow> \<not> is_jump q \<Longrightarrow> wfs A E [q]"
  by (simp add: wfs_def)

lemma wfs_jump: "is_jump (opr, a1, a2, AStr l) \<Longrightarrow> l \<in> E \<Longrightarrow> wfs A E [(opr, a1, a2, AStr l)]"
  by (simp add: wfs_def)

lemma run_ok_refl [simp]: "run_ok g g"
  by (simp add: run_ok_def)

lemma run_ok_trans: "run_ok g g1 \<Longrightarrow> run_ok g1 g2 \<Longrightarrow> run_ok g g2"
proof -
  assume a: "run_ok g g1" and b: "run_ok g1 g2"
  from a obtain s1 where s1: "quadruples g1 = quadruples g @ s1"
    "wfs {label_counter g ..< label_counter g1} (stack_labels (loop_stack g)) s1"
    and l1: "loop_stack g1 = loop_stack g" "label_counter g \<le> label_counter g1"
    by (auto simp: run_ok_def)
  from b obtain s2 where s2: "quadruples g2 = quadruples g1 @ s2"
    "wfs {label_counter g1 ..< label_counter g2} (stack_labels (loop_stack g1)) s2"
    and l2: "loop_stack g2 = loop_stack g1" "label_counter g1 \<le> label_counter g2"
    by (auto simp: run_ok_def)
  have "wfs ({label_counter g ..< label_counter g1} \<union> {label_counter g1 ..< label_counter g2})
          (stack_labels (loop_stack g)) (s1 @ s2)"
    using s1(2) s2(2) l1 by (intro wfs_append) auto
  moreover have "{label_counter g ..< label_counter g1} \<union> {label_counter g1 ..< label_counter g2}
       = {label_counter g ..< label_counter g2}"
    using l1 l2 by auto
  ultimately show ?thesis using s1 s2 l1 l2 by (auto simp: run_ok_def)
qed

lemma trD: "tr m \<Longrightarrow> m g = (Inr v, g') \<Longrightarrow> run_ok g g'"
  by (auto simp: tr_def)

lemma gbindE:
  assumes "gbind m f g = (Inr v, g')"
  obtains w g1 where "m g = (Inr w, g1)" "f w g1 = (Inr v, g')"
  using assms by (auto simp: gbind_def split: prod.splits sum.splits)

lemma tr_greturn [simp]: "tr (greturn v)"
  by (simp add: tr_def greturn_def)

lemma tr_gbind: "tr m \<Longrightarrow> (\<And>v. tr (f v)) \<Longrightarrow> tr (gbind m f)"
  unfolding tr_def by (blast elim: gbindE intro: run_ok_trans)

lemma tr_emit: "\<not> is_label_quad q \<Longrightarrow> \<not> is_jump q \<Longrightarrow> tr (emit q)"
  by (auto simp: tr_def emit_def run_ok_def wfs_def)

lemma tr_new_temp [simp]: "tr new_temp"
  by (auto simp: tr_def new_temp_def run_ok_def)

lemma tr_new_label [simp]: "tr new_label"
  by (auto simp: tr_def new_label_def run_ok_def)


lemma stack_labels_simps [simp]:
  "stack_labels [] = {}"
  "stack_labels (c # cs) = insert (start_label c) (insert (end_label c) (stack_labels cs))"
  by (auto simp: stack_labels_def)

lemma wfs_two_labels:
  assumes p0: "wfs A0 (insert (lab x) (insert (lab y) E)) p0"
    and p1: "wfs A1 (insert (lab x) (insert (lab y) E)) p1"
    and disj: "A0 \<inter> A1 = {}" "x \<notin> A0 \<union> A1" "y \<notin> A0 \<union> A1" "x \<noteq> y"
    and sub: "insert x (insert y (A0 \<union> A1)) \<subseteq> A"
  shows "wfs A E (p0 @ label_quad (lab x) # p1 @ [label_quad (lab y)])"
proof -
  let ?E = "insert (lab x) (insert (lab y) E)"
  have "wfs {x} ?E [label_quad (lab x)]" "wfs {y} ?E [label_quad (lab y)]"
    by (rule wfs_label)+
  with p0 p1 have "wfs (A0 \<union> ({x} \<union> (A1 \<union> {y}))) ?E
      (p0 @ [label_quad (lab x)] @ p1 @ [label_quad (lab y)])"
    using disj by (intro wfs_append) auto
  then have "wfs A ?E (p0 @ [label_quad (lab x)] @ p1 @ [label_quad (lab y)])"
    by (rule wfs_mono) (use sub in auto)
  then have "wfs A ?E (p0 @ label_quad (lab x) # p1 @ [label_quad (lab y)])"
    by simp
  then show ?thesis by (rule wfs_close) auto
qed

lemma wfs_while_shape:
  assumes "wfs {Suc (Suc k)..<m} (insert (lab k) (insert (lab (Suc k)) E)) cq"
    and "wfs {m..<b} (insert (lab k) (insert (lab (Suc k)) E)) bq"
    and "Suc (Suc k) \<le> m" "m \<le> b"
  shows "wfs {k..<b} E (label_quad (lab k) # cq @ (''ifz'', c, ANone, AStr (lab (Suc k))) #
            bq @ [(''goto'', ANone, ANone, AStr (lab k)), label_quad (lab (Suc k))])"
proof -
  let ?E = "insert (lab k) (insert (lab (Suc k)) E)"
  have "wfs ({Suc (Suc k)..<m} \<union> ({} \<union> ({m..<b} \<union> {}))) ?E
      (cq @ [(''ifz'', c, ANone, AStr (lab (Suc k)))] @ bq @ [(''goto'', ANone, ANone, AStr (lab k))])"
    using assms by (intro wfs_append wfs_jump) (auto simp: is_jump_def)
  then have "wfs {k..<b} E ([] @ label_quad (lab k) #
     (cq @ [(''ifz'', c, ANone, AStr (lab (Suc k)))] @ bq @ [(''goto'', ANone, ANone, AStr (lab k))]) @
      [label_quad (lab (Suc k))])"
    using assms(3,4) by (intro wfs_two_labels [where ?A0.0 = "{}"]) auto
  then show ?thesis by simp
qed

lemmas gen_prims = new_label_def new_temp_def push_loop_def emit_def pop_loop_def greturn_def

lemma tr_while_frame:
  assumes c: "tr mc" and b: "tr mb"
  shows "tr (gbind new_label (\<lambda>start.
     gbind new_label (\<lambda>end.
     gbind (push_loop \<lparr>start_label = start, end_label = end, result_temp = None\<rparr>) (\<lambda>_.
     gbind (emit (label_quad start)) (\<lambda>_.
     gbind mc (\<lambda>cond.
     gbind (emit (''ifz'', cond, ANone, AStr end)) (\<lambda>_.
     gbind mb (\<lambda>_.
     gbind (emit (''goto'', ANone, ANone, AStr start)) (\<lambda>_.
     gbind (emit (label_quad end)) (\<lambda>_.
     pop_loop))))))))))"
  unfolding tr_def
  apply (intro allI impI)
  apply (elim gbindE)
  apply (drule trD [OF c])
  apply (drule trD [OF b])
  apply (auto simp: gen_prims run_ok_def lab_def[symmetric] split: list.splits)
  apply (rule wfs_while_shape; simp)
  done


lemma wfs_loop_shape:
  assumes "wfs {Suc (Suc k)..<b} (insert (lab k) (insert (lab (Suc k)) E)) bq"
    and "Suc (Suc k) \<le> b"
  shows "wfs {k..<b} E (label_quad (lab k) #
            bq @ [(''goto'', ANone, ANone, AStr (lab k)), label_quad (lab (Suc k))])"
proof -
  let ?E = "insert (lab k) (insert (lab (Suc k)) E)"
  have "wfs ({Suc (Suc k)..<b} \<union> {}) ?E (bq @ [(''goto'', ANone, ANone, AStr (lab k))])"
    using assms by (intro wfs_append) (simp_all add: wfs_def is_jump_def)
  then have "wfs {k..<b} E ([] @ label_quad (lab k) #
     (bq @ [(''goto'', ANone, ANone, AStr (lab k))]) @ [label_quad (lab (Suc k))])"
    using assms(2) by (intro wfs_two_labels [where ?A0.0 = "{}"]) auto
  then show ?thesis by simp
qed

lemma wfs_for_shape:
  assumes "wfs {Suc (Suc k)..<b} (insert (lab k) (insert (lab (Suc k)) E)) bq"
    and "Suc (Suc k) \<le> b"
  shows "wfs {k..<b} E ((''declare'', AStr v, AStr m, vt) # (''='', sv, ANone, AStr v) #
            label_quad (lab k) # (''<'', AStr v, ev, AStr t) #
            (''ifz'', AStr t, ANone, AStr (lab (Suc k))) #
            bq @ [(''+'', AStr v, AStr ''1'', AStr t'), (''='', AStr t', ANone, AStr v),
                  (''goto'', ANone, ANone, AStr (lab k)), label_quad (lab (Suc k))])"
proof -
  let ?E = "insert (lab k) (insert (lab (Suc k)) E)"
  have p0: "wfs {} ?E [(''declare'', AStr v, AStr m, vt), (''='', sv, ANone, AStr v)]"
    by (simp add: wfs_def is_jump_def)
  have p1: "wfs ({} \<union> ({Suc (Suc k)..<b} \<union> {})) ?E
      ([(''<'', AStr v, ev, AStr t), (''ifz'', AStr t, ANone, AStr (lab (Suc k)))] @ bq @
       [(''+'', AStr v, AStr ''1'', AStr t'), (''='', AStr t', ANone, AStr v),
        (''goto'', ANone, ANone, AStr (lab k))])"
    using assms by (intro wfs_append) (simp_all add: wfs_def is_jump_def)
  have "wfs {k..<b} E ([(''declare'', AStr v, AStr m, vt), (''='', sv, ANone, AStr v)] @
      label_quad (lab k) #
      ([(''<'', AStr v, ev, AStr t), (''ifz'', AStr t, ANone, AStr (lab (Suc k)))] @ bq @
       [(''+'', AStr v, AStr ''1'', AStr t'), (''='', AStr t', ANone, AStr v),
        (''goto'', ANone, ANone, AStr (lab k))]) @ [label_quad (lab (Suc k))])"
    using assms(2) by (intro wfs_two_labels [OF p0 p1]) auto
  then show ?thesis by simp
qed

lemma wfs_if_shape:
  assumes "wfs {Suc (Suc k)..<m} E tq" and "wfs {m..<b} E eq"
    and "Suc (Suc k) \<le> m" "m \<le> b"
  shows "wfs {k..<b} E ((''ifz'', c, ANone, AStr (lab k)) # tq @
            (''goto'', ANone, ANone, AStr (lab (Suc k))) # label_quad (lab k) #
            eq @ [label_quad (lab (Suc k))])"
proof -
  let ?E = "insert (lab k) (insert (lab (Suc k)) E)"
  have t: "wfs {Suc (Suc k)..<m} ?E tq" and e: "wfs {m..<b} ?E eq"
    using assms(1,2) by (auto elim: wfs_mono)
  have p0: "wfs ({} \<union> ({Suc (Suc k)..<m} \<union> {})) ?E
      ([(''ifz'', c, ANone, AStr (lab k))] @ tq @ [(''goto'', ANone, ANone, AStr (lab (Suc k)))])"
    using t by (intro wfs_append) (simp_all add: wfs_def is_jump_def)
  have "wfs {k..<b} E (([(''ifz'', c, ANone, AStr (lab k))] @ tq @
      [(''goto'', ANone, ANone, AStr (lab (Suc k)))]) @ label_quad (lab k) # eq @
      [label_quad (lab (Suc k))])"
    using assms(3,4) by (intro wfs_two_labels [OF p0 e]) auto
  then show ?thesis by simp
qed

lemma wfs_if_expr_shape:
  assumes "wfs {Suc (Suc k)..<m} E tq" and "wfs {m..<b} E eq"
    and "Suc (Suc k) \<le> m" "m \<le> b"
  shows "wfs {k..<b} E ((''ifz'', c, ANone, AStr (lab k)) # tq @
            (''='', tv, ANone, AStr rt) #
            (''goto'', ANone, ANone, AStr (lab (Suc k))) # label_quad (lab k) #
            eq @ [(''='', ev, ANone, AStr rt), label_quad (lab (Suc k))])"
proof -
  let ?E = "insert (lab k) (insert (lab (Suc k)) E)"
  have t: "wfs {Suc (Suc k)..<m} ?E tq" and e: "wfs {m..<b} ?E eq"
    using assms(1,2) by (auto elim: wfs_mono)
  have p0: "wfs ({} \<union> ({Suc (Suc k)..<m} \<union> {})) ?E
      ([(''ifz'', c, ANone, AStr (lab k))] @ tq @
       [(''='', tv, ANone, AStr rt), (''goto'', ANone, ANone, AStr (lab (Suc k)))])"
    using t by (intro wfs_append) (simp_all add: wfs_def is_jump_def)
  have p1: "wfs ({m..<b} \<union> {}) ?E (eq @ [(''='', ev, ANone, AStr rt)])"
    using e by (intro wfs_append) (simp_all add: wfs_def is_jump_def)
  have "wfs {k..<b} E (([(''ifz'', c, ANone, AStr (lab k))] @ tq @
       [(''='', tv, ANone, AStr rt), (''goto'', ANone, ANone, AStr (lab (Suc k)))]) @
      label_quad (lab k) # (eq @ [(''='', ev, ANone, AStr rt)]) @
      [label_quad (lab (Suc k))])"
    using assms(3,4) by (intro wfs_two_labels [OF p0 p1]) auto
  then show ?thesis by simp
qed

lemma tr_loop_frame:
  assumes b: "tr mb"
  shows "tr (gbind new_label (\<lambda>start.
     gbind new_label (\<lambda>end.
     gbind (push_loop \<lparr>start_label = start, end_label = end, result_temp = None\<rparr>) (\<lambda>_.
     gbind (emit (label_quad start)) (\<lambda>_.
     gbind mb (\<lambda>_.
     gbind (emit (''goto'', ANone, ANone, AStr start)) (\<lambda>_.
     gbind (emit (label_quad end)) (\<lambda>_.
     pop_loop))))))))"
  unfolding tr_def
  apply (intro allI impI)
  apply (elim gbindE)
  apply (drule trD [OF b])
  apply (auto simp: gen_prims run_ok_def lab_def[symmetric] split: list.splits)
  apply (rule wfs_loop_shape; simp)
  done

lemma tr_loop_expr_frame:
  assumes b: "tr mb"
  shows "tr (gbind new_label (\<lambda>start.
     gbind new_label (\<lambda>end.
     gbind new_temp (\<lambda>result_temp.
     gbind (push_loop \<lparr>start_label = start, end_label = end,
                       result_temp = Some result_temp\<rparr>) (\<lambda>_.
     gbind (emit (label_quad start)) (\<lambda>_.
     gbind mb (\<lambda>_.
     gbind (emit (''goto'', ANone, ANone, AStr start)) (\<lambda>_.
     gbind (emit (label_quad end)) (\<lambda>_.
     gbind pop_loop (\<lambda>_.
     greturn (AStr result_temp)))))))))))"
  unfolding tr_def
  apply (intro allI impI)
  apply (elim gbindE)
  apply (drule trD [OF b])
  apply (auto simp: gen_prims run_ok_def lab_def[symmetric] split: list.splits)
  apply (rule wfs_loop_shape; simp)
  done

lemma tr_for_frame:
  assumes b: "tr mb"
  shows "tr (gbind new_label (\<lambda>start.
     gbind new_label (\<lambda>end.
     gbind (push_loop \<lparr>start_label = start, end_label = end, result_temp = None\<rparr>) (\<lambda>_.
     gbind (emit (''declare'', AStr var_name, AStr m, vt)) (\<lambda>_.
     gbind (emit (''='', start_value, ANone, AStr var_name)) (\<lambda>_.
     gbind (emit (label_quad start)) (\<lambda>_.
     gbind new_temp (\<lambda>temp.
     gbind (emit (''<'', AStr var_name, end_value, AStr temp)) (\<lambda>_.
     gbind (emit (''ifz'', AStr temp, ANone, AStr end)) (\<lambda>_.
     gbind mb (\<lambda>_.
     gbind new_temp (\<lambda>inc_temp.
     gbind (emit (''+'', AStr var_name, AStr ''1'', AStr inc_temp)) (\<lambda>_.
     gbind (emit (''='', AStr inc_temp, ANone, AStr var_name)) (\<lambda>_.
     gbind (emit (''goto'', ANone, ANone, AStr start)) (\<lambda>_.
     gbind (emit (label_quad end)) (\<lambda>_.
     pop_loop))))))))))))))))"
  unfolding tr_def
  apply (intro allI impI)
  apply (elim gbindE)
  apply (drule trD [OF b])
  apply (auto simp: gen_prims run_ok_def lab_def[symmetric] split: list.splits)
  apply (rule wfs_for_shape; simp)
  done

lemma tr_if_frame:
  assumes t: "tr mt" and e: "tr me"
  shows "tr (gbind new_label (\<lambda>else_label.
     gbind new_label (\<lambda>end_label.
     gbind (emit (''ifz'', cond, ANone, AStr else_label)) (\<lambda>_.
     gbind mt (\<lambda>_.
     gbind (emit (''goto'', ANone, ANone, AStr end_label)) (\<lambda>_.
     gbind (emit (label_quad else_label)) (\<lambda>_.
     gbind me (\<lambda>_.
     emit (label_quad end_label)))))))))"
  unfolding tr_def
  apply (intro allI impI)
  apply (elim gbindE)
  apply (drule trD [OF t])
  apply (drule trD [OF e])
  apply (auto simp: gen_prims run_ok_def lab_def[symmetric] split: list.splits)
  apply (rule wfs_if_shape; simp)
  done

lemma tr_if_expr_frame:
  assumes t: "tr mt" and e: "tr me"
  shows "tr (gbind new_label (\<lambda>else_label.
     gbind new_label (\<lambda>end_label.
     gbind new_temp (\<lambda>result_temp.
     gbind (emit (''ifz'', cond, ANone, AStr else_label)) (\<lambda>_.
     gbind mt (\<lambda>then_value.
     gbind (emit (''='', then_value, ANone, AStr result_temp)) (\<lambda>_.
     gbind (emit (''goto'', ANone, ANone, AStr end_label)) (\<lambda>_.
     gbind (emit (label_quad else_label)) (\<lambda>_.
     gbind me (\<lambda>else_value.
     gbind (emit (''='', else_value, ANone, AStr result_temp)) (\<lambda>_.
     gbind (emit (label_quad end_label)) (\<lambda>_.
     greturn (AStr result_temp)))))))))))))"
  unfolding tr_def
  apply (intro allI impI)
  apply (elim gbindE)
  apply (drule trD [OF t])
  apply (drule trD [OF e])
  apply (auto simp: gen_prims run_ok_def lab_def[symmetric] split: list.splits)
  apply (rule wfs_if_expr_shape; simp)
  done

subsection \<open>What every method leaves alone\<close>

definition keeps :: "'a gen \<Rightarrow> bool" where
  "keeps m \<longleftrightarrow> (\<forall>g. ast (snd (m g)) = ast g \<and>
                    (\<exists>seg. quadruples (snd (m g)) = quadruples g @ seg))"

lemma keeps_greturn: "keeps (greturn v)"
  by (simp add: keeps_def greturn_def)

lemma keeps_gbind: "keeps m \<Longrightarrow> (\<And>v. keeps (f v)) \<Longrightarrow> keeps (gbind m f)"
proof -
  assume m: "keeps m" and f: "\<And>v. keeps (f v)"
  show ?thesis
    unfolding keeps_def
  proof (intro allI)
    fix g
    obtain r g1 where r: "m g = (r, g1)" by (cases "m g")
    from m have "ast (snd (m g)) = ast g \<and> (\<exists>seg. quadruples (snd (m g)) = quadruples g @ seg)"
      unfolding keeps_def by blast
    with r obtain s1 where 1: "ast g1 = ast g" "quadruples g1 = quadruples g @ s1"
      by auto
    show "ast (snd (gbind m f g)) = ast g \<and>
          (\<exists>seg. quadruples (snd (gbind m f g)) = quadruples g @ seg)"
    proof (cases r)
      case (Inl e)
      with r 1 show ?thesis by (simp add: gbind_def)
    next
      case (Inr v)
      from f [of v] have "ast (snd (f v g1)) = ast g1 \<and>
          (\<exists>seg. quadruples (snd (f v g1)) = quadruples g1 @ seg)"
        unfolding keeps_def by blast
      then obtain s2 where "ast (snd (f v g1)) = ast g1"
        "quadruples (snd (f v g1)) = quadruples g1 @ s2"
        by auto
      with Inr r 1 show ?thesis by (simp add: gbind_def)
    qed
  qed
qed

lemma keeps_prims:
  "keeps (emit q)" "keeps new_temp" "keeps new_label" "keeps (push_loop c)" "keeps pop_loop"
  "keeps process_break_stmt" "keeps process_continue_stmt" "keeps (set_current_function f)"
  "keeps append_default_return"
  by (auto simp: keeps_def emit_def new_temp_def new_label_def push_loop_def pop_loop_def
      process_break_stmt_def process_continue_stmt_def set_current_function_def
      append_default_return_def split: list.splits)

lemmas keeps_intros = keeps_greturn keeps_gbind keeps_prims

lemma keeps_expr:
  "keeps (process_expr e)"
  "keeps (process_call_args args)"
  "keeps (process_array_elements a i es)"
  "keeps (process_tuple_elements b j fs)"
  by (induction e and args and a i es and b j fs
      rule: process_expr_process_call_args_process_array_elements_process_tuple_elements.induct)
     (auto intro!: keeps_intros)

lemma keeps_helpers:
  "keeps (process_return_stmt r)"
  "keeps (process_assignment t v)"
  "keeps (process_variable_decl m n i)"
proof -
  show "keeps (process_return_stmt r)"
    by (cases r) (auto simp: process_return_stmt_def intro!: keeps_intros keeps_expr)
  show "keeps (process_assignment t v)"
    unfolding process_assignment_def
    by (cases t) (auto intro!: keeps_intros keeps_expr)
  show "keeps (process_variable_decl m n i)"
    by (cases i) (auto simp: process_variable_decl_def intro!: keeps_intros keeps_expr)
qed

lemma keeps_stmt:
  "keeps (process_block b)"
  "keeps (process_each_element es)"
  "keeps (process_each_statement ss)"
  "keeps (process_elements el)"
  "keeps (process_statement st)"
  "keeps (process_if_stmt c t e)"
  "keeps (process_while_stmt wc wb)"
  "keeps (process_for_stmt m v vt s en fb)"
  "keeps (process_loop_stmt lb)"
proof (induction b and es and ss and el and st and c t e and wc wb and m v vt s en fb and lb
      rule: process_block_process_each_element_process_each_statement_process_elements_process_statement_process_if_stmt_process_while_stmt_process_for_stmt_process_loop_stmt.induct)
  case (1 block)
  then show ?case
    by (cases block) (simp_all add: process_block.simps keeps_greturn)
next
  case (6 element)
  then show ?case
    by (cases element)
       (simp_all add: process_elements.simps keeps_intros keeps_expr keeps_helpers)
next
  case (7 stmt)
  then show ?case
    by (cases stmt)
       (simp_all add: process_statement.simps keeps_intros keeps_expr keeps_helpers)
next
  case (8 c then_block else_block)
  then show ?case
    unfolding process_if_stmt.simps
    by (cases else_block) (auto intro!: keeps_intros keeps_expr)
next
  case (9 c body)
  then show ?case
    unfolding process_while_stmt.simps by (auto intro!: keeps_intros keeps_expr)
next
  case (10 is_mut var_name var_type s e body)
  then show ?case
    unfolding process_for_stmt.simps by (auto intro!: keeps_intros keeps_expr)
next
  case (11 body)
  then show ?case
    unfolding process_loop_stmt.simps by (auto intro!: keeps_intros keeps_expr)
qed (auto intro!: keeps_intros)

subsection \<open>Every method appends a well-formed list\<close>

lemma tr_break_continue: "tr process_break_stmt" "tr process_continue_stmt"
  by (auto simp: tr_def process_break_stmt_def process_continue_stmt_def emit_def run_ok_def
      wfs_def is_jump_def is_label_quad_def split: list.splits)

lemma op_str_neq [simp]: "op_str b \<noteq> ''goto''" "op_str b \<noteq> ''ifz''"
  by (cases b; simp)+

lemma tr_expr:
  "tr (process_expr e)"
  "tr (process_call_args args)"
  "tr (process_array_elements a i es)"
  "tr (process_tuple_elements b j fs)"
proof (induction e and args and a i es and b j fs
      rule: process_expr_process_call_args_process_array_elements_process_tuple_elements.induct)
  case (5 c then_expr else_expr)
  show ?case
    apply (subst process_expr.simps)
    apply (rule tr_gbind)
     apply (rule 5)
    apply (rule tr_if_expr_frame)
     apply (rule 5)
    apply (rule 5)
    done
next
  case (6 body)
  show ?case
    apply (subst process_expr.simps)
    apply (rule tr_loop_expr_frame)
    apply (rule 6)
    done
qed (auto intro!: tr_gbind tr_emit simp: is_jump_def is_label_quad_def)

lemma tr_helpers:
  "tr (process_return_stmt r)"
  "tr (process_assignment t v)"
proof -
  show "tr (process_return_stmt r)"
    by (cases r) (auto simp: process_return_stmt_def is_jump_def is_label_quad_def
        intro!: tr_gbind tr_emit tr_expr)
  show "tr (process_assignment t v)"
    unfolding process_assignment_def
    by (cases t) (auto simp: is_jump_def is_label_quad_def intro!: tr_gbind tr_emit tr_expr)
qed

lemmas tr_intros = tr_gbind tr_expr tr_helpers tr_break_continue

lemma tr_stmt:
  "tr (process_block b)"
  "tr (process_each_element es)"
  "tr (process_each_statement ss)"
  "tr (process_elements el)"
  "tr (process_statement st)"
  "tr (process_if_stmt c t e)"
  "tr (process_while_stmt wc wb)"
  "tr (process_for_stmt m v vt s en fb)"
  "tr (process_loop_stmt lb)"
proof (induction b and es and ss and el and st and c t e and wc wb and m v vt s en fb and lb
      rule: process_block_process_each_element_process_each_statement_process_elements_process_statement_process_if_stmt_process_while_stmt_process_for_stmt_process_loop_stmt.induct)
  case (1 block)
  then show ?case
    by (cases block) (simp_all add: process_block.simps)
next
  case (6 element)
  then show ?case
    by (cases element) (simp_all add: process_elements.simps tr_intros)
next
  case (7 stmt)
  then show ?case
    by (cases stmt) (simp_all add: process_statement.simps tr_intros)
next
  case (8 c then_block else_block)
  have e: "tr (case else_block of None \<Rightarrow> greturn () | Some b \<Rightarrow> process_block b)"
    using 8(2) by (cases else_block) simp_all
  show ?case
    unfolding process_if_stmt.simps
    apply (rule tr_gbind)
     apply (rule tr_expr)
    apply (rule tr_if_frame)
     apply (rule 8(1))
    apply (rule e)
    done
next
  case (9 c body)
  show ?case
    unfolding process_while_stmt.simps
    apply (rule tr_while_frame)
     apply (rule tr_expr)
    apply (rule 9)
    done
next
  case (10 is_mut var_name var_type s e body)
  show ?case
    unfolding process_for_stmt.simps
    apply (rule tr_gbind)
     apply (rule tr_expr)
    apply (rule tr_gbind)
     apply (rule tr_expr)
    apply (rule tr_for_frame)
    apply (rule 10)
    done
next
  case (11 body)
  show ?case
    unfolding process_loop_stmt.simps
    apply (rule tr_loop_frame)
    apply (rule 11)
    done
qed (auto intro!: tr_gbind)

subsection \<open>The quads of the functions of a program\<close>

text \<open>The quads of each function of a program: what \<^verbatim>\<open>_process_function\<close> appends for
  each declaration in turn, starting from the instance \<open>g\<close>.\<close>

fun function_quads :: "fdecl list \<Rightarrow> generator \<Rightarrow> quad list list" where
  "function_quads [] g = []"
| "function_quads (d # ds) g =
     drop (length (quadruples g)) (quadruples (snd (process_function d g))) #
     function_quads ds (snd (process_function d g))"

definition jump_target :: "quad \<Rightarrow> arg" where
  "jump_target q = snd (snd (snd q))"

definition fun_seg :: "nat \<Rightarrow> nat \<Rightarrow> quad list \<Rightarrow> bool" where
  "fun_seg lo hi seg \<longleftrightarrow>
     (\<exists>name rest. seg = label_quad name # rest \<and> (\<forall>k. name \<noteq> lab k) \<and> wfs {lo..<hi} {} rest)"

fun segs_ok :: "nat \<Rightarrow> nat \<Rightarrow> quad list list \<Rightarrow> bool" where
  "segs_ok lo hi [] \<longleftrightarrow> lo \<le> hi"
| "segs_ok lo hi (s # ss) \<longleftrightarrow> (\<exists>mid. lo \<le> mid \<and> fun_seg lo mid s \<and> segs_ok mid hi ss)"

lemma count_label_quad: "count_list qs (label_quad l) = count_list (label_defs qs) l"
proof (induction qs)
  case Nil
  then show ?case by simp
next
  case (Cons q qs)
  show ?case
  proof (cases "is_label_quad q")
    case True
    obtain opr a1 a2 r where q: "q = (opr, a1, a2, r)" by (cases q)
    with True have "opr \<noteq> []" "last opr = CHR '':''" "a1 = ANone" "a2 = ANone" "r = ANone"
      by (auto simp: is_label_quad_def)
    then have "q = label_quad l \<longleftrightarrow> butlast (fst q) = l"
      using q append_butlast_last_id [of opr] by (auto simp: label_quad_def)
    with True Cons show ?thesis by simp
  next
    case False
    then have "q \<noteq> label_quad l" by auto
    with False Cons show ?thesis by simp
  qed
qed

lemma tr_each_parameter: "tr (process_each_parameter ps)"
  by (induction ps)
     (auto simp: process_parameter_def is_jump_def intro!: tr_gbind tr_emit)

lemma tr_tail:
  "tr append_default_return" "tr (set_current_function f)"
  by (auto simp: tr_def append_default_return_def set_current_function_def emit_def run_ok_def
      wfs_def is_jump_def is_label_quad_def)

lemma process_function_seg:
  assumes run: "process_function d g = (Inr u, g')" and st: "loop_stack g = []"
    and nm: "\<forall>k. fdecl_name d \<noteq> lab k"
  shows "\<exists>seg. quadruples g' = quadruples g @ seg \<and> fun_seg (label_counter g) (label_counter g') seg
     \<and> loop_stack g' = [] \<and> label_counter g \<le> label_counter g'"
proof -
  obtain name ps r body where d: "d = FunctionDecl name ps r body" by (cases d)
  let ?rest = "gbind (process_each_parameter ps) (\<lambda>_.
     gbind (process_block body) (\<lambda>_.
     gbind append_default_return (\<lambda>_.
     set_current_function None)))"
  let ?g1 = "g\<lparr>current_function := Some name, quadruples := quadruples g @ [label_quad name]\<rparr>"
  have tr: "tr ?rest"
    by (intro tr_gbind tr_each_parameter tr_stmt tr_tail)
  from run have "?rest ?g1 = (Inr u, g')"
    by (simp add: d gbind_def set_current_function_def emit_def)
  with tr have "run_ok ?g1 g'" by (rule trD)
  then obtain seg where "quadruples g' = (quadruples g @ [label_quad name]) @ seg"
    "wfs {label_counter g..<label_counter g'} {} seg" "loop_stack g' = []"
    "label_counter g \<le> label_counter g'"
    using st by (auto simp: run_ok_def)
  then show ?thesis using nm d by (auto simp: fun_seg_def)
qed

lemma each_declaration_segs:
  assumes "process_each_declaration ds g = (Inr u, g')" and "loop_stack g = []"
    and "\<forall>d\<in>set ds. \<forall>k. fdecl_name d \<noteq> lab k"
  shows "quadruples g' = quadruples g @ concat (function_quads ds g) \<and>
         segs_ok (label_counter g) (label_counter g') (function_quads ds g)"
  using assms
proof (induction ds arbitrary: g u)
  case Nil
  then show ?case by (simp add: greturn_def)
next
  case (Cons d ds)
  from Cons.prems(1) obtain w g1 where 1: "process_function d g = (Inr w, g1)"
    and 2: "process_each_declaration ds g1 = (Inr u, g')"
    by (auto elim: gbindE)
  from process_function_seg [OF 1 Cons.prems(2)] Cons.prems(3)
  obtain seg where seg: "quadruples g1 = quadruples g @ seg"
    "fun_seg (label_counter g) (label_counter g1) seg" "loop_stack g1 = []"
    "label_counter g \<le> label_counter g1"
    by auto
  from Cons.IH [OF 2 seg(3)] Cons.prems(3)
  have ih: "quadruples g' = quadruples g1 @ concat (function_quads ds g1)"
    "segs_ok (label_counter g1) (label_counter g') (function_quads ds g1)"
    by auto
  have "function_quads (d # ds) g = seg # function_quads ds g1"
    using 1 seg(1) by simp
  with seg ih show ?case by auto
qed

lemma fun_seg_defs:
  assumes "fun_seg lo hi s" and "l \<in> set (label_defs s)"
  shows "(\<forall>k. l \<noteq> lab k) \<or> (\<exists>k. lo \<le> k \<and> k < hi \<and> l = lab k)"
proof -
  from assms(1) obtain name rest where s: "s = label_quad name # rest"
    "\<forall>k. name \<noteq> lab k" "set (label_defs rest) \<subseteq> lab ` {lo..<hi}"
    by (auto simp: fun_seg_def wfs_def)
  from assms(2) s(1) consider "l = name" | "l \<in> set (label_defs rest)" by auto
  then show ?thesis
  proof cases
    case 1
    with s(2) show ?thesis by simp
  next
    case 2
    with s(3) have "l \<in> lab ` {lo..<hi}" by blast
    then show ?thesis by auto
  qed
qed

lemma segs_ok_le: "segs_ok lo hi ss \<Longrightarrow> lo \<le> hi"
proof (induction ss arbitrary: lo)
  case Nil
  then show ?case by simp
next
  case (Cons s ss)
  then obtain mid where "lo \<le> mid" "segs_ok mid hi ss" by auto
  with Cons.IH [of mid] show ?case by simp
qed

lemma count_list_distinct: "distinct xs \<Longrightarrow> x \<in> set xs \<Longrightarrow> count_list xs x = 1"
  by (induction xs) (auto simp: count_list_0_iff)

lemma segs_ok_defs:
  assumes "segs_ok lo hi ss" and "l \<in> set (label_defs (concat ss))"
  shows "(\<forall>k. l \<noteq> lab k) \<or> (\<exists>k. lo \<le> k \<and> k < hi \<and> l = lab k)"
  using assms
proof (induction ss arbitrary: lo)
  case Nil
  then show ?case by simp
next
  case (Cons s ss)
  from Cons.prems(1) obtain mid where m: "lo \<le> mid" "fun_seg lo mid s" "segs_ok mid hi ss"
    by auto
  from Cons.prems(2) consider "l \<in> set (label_defs s)" | "l \<in> set (label_defs (concat ss))"
    by auto
  then show ?case
  proof cases
    case 1
    from fun_seg_defs [OF m(2) 1] segs_ok_le [OF m(3)] show ?thesis by force
  next
    case 2
    from Cons.IH [OF m(3) 2] m(1) show ?thesis by force
  qed
qed

lemma fun_seg_jump:
  assumes "fun_seg lo hi s" and "q \<in> set s" and "is_jump q"
  shows "\<exists>k. lo \<le> k \<and> k < hi \<and> jump_target q = AStr (lab k) \<and>
             count_list (label_defs s) (lab k) = 1"
proof -
  from assms(1) obtain name rest where s: "s = label_quad name # rest"
    "\<forall>k. name \<noteq> lab k" "wfs {lo..<hi} {} rest"
    by (auto simp: fun_seg_def)
  from assms(2,3) s(1) have "q \<in> set rest" by auto
  with assms(3) have "jump_target q \<in> set (jump_targets rest)"
    by (auto simp: jump_targets_def jump_target_def)
  with s(3) obtain l where l: "jump_target q = AStr l" "l \<in> set (label_defs rest)"
    by (auto simp: wfs_def)
  with s(3) obtain k where k: "lo \<le> k" "k < hi" "l = lab k"
    by (auto simp: wfs_def)
  from s(3) l(2) have "count_list (label_defs rest) l = 1"
    by (simp add: wfs_def count_list_distinct)
  with s(1,2) k l show ?thesis by auto
qed

lemma segs_ok_jump:
  assumes "segs_ok lo hi ss" and "s \<in> set ss" and "q \<in> set s" and "is_jump q"
  shows "\<exists>k. lo \<le> k \<and> k < hi \<and> jump_target q = AStr (lab k) \<and>
             count_list (label_defs s) (lab k) = 1 \<and>
             count_list (label_defs (concat ss)) (lab k) = 1"
  using assms
proof (induction ss arbitrary: lo)
  case Nil
  then show ?case by simp
next
  case (Cons a ss)
  from Cons.prems(1) obtain mid where m: "lo \<le> mid" "fun_seg lo mid a" "segs_ok mid hi ss"
    by auto
  have mh: "mid \<le> hi" using m(3) by (rule segs_ok_le)
  show ?case
  proof (cases "s = a")
    case True
    from fun_seg_jump [OF m(2) _ Cons.prems(4)] Cons.prems(3) True
    obtain k where k: "lo \<le> k" "k < mid" "jump_target q = AStr (lab k)"
      "count_list (label_defs a) (lab k) = 1" by auto
    have "lab k \<notin> set (label_defs (concat ss))"
    proof
      assume "lab k \<in> set (label_defs (concat ss))"
      from segs_ok_defs [OF m(3) this] k(2) show False by auto
    qed
    then have "count_list (label_defs (concat ss)) (lab k) = 0"
      by (simp add: count_list_0_iff)
    with k mh True show ?thesis by auto
  next
    case False
    with Cons.prems(2) have "s \<in> set ss" by simp
    from Cons.IH [OF m(3) this Cons.prems(3,4)]
    obtain k where k: "mid \<le> k" "k < hi" "jump_target q = AStr (lab k)"
      "count_list (label_defs s) (lab k) = 1"
      "count_list (label_defs (concat ss)) (lab k) = 1" by auto
    have "lab k \<notin> set (label_defs a)"
    proof
      assume "lab k \<in> set (label_defs a)"
      from fun_seg_defs [OF m(2) this] k(1) show False by auto
    qed
    then have "count_list (label_defs a) (lab k) = 0"
      by (simp add: count_list_0_iff)
    with k m(1) show ?thesis by auto
  qed
qed

text \<open>
  Claim C6, amended (label well-formedness). Let a program have no function whose name
  is a generated label name (\<open>L\<close> followed by a decimal number), and let the generator
  return the list \<open>qs\<close> for it. Then \<open>qs\<close> is the concatenation of the quads of its
  functions, and for every jump quad (\<^verbatim>\<open>goto\<close> or \<^verbatim>\<open>ifz\<close>) among the quads of a function
  the fourth field is a label name \<open>l\<close> whose label quad \<^verbatim>\<open>(l:, None, None, None)\<close> occurs
  exactly once among the quads of that function and exactly once in \<open>qs\<close>.
\<close>

theorem labels_well_formed:
  assumes "generate_quadruples (Program ds) = Inr qs"
    and "\<forall>d\<in>set ds. \<forall>k. fdecl_name d \<noteq> CHR ''L'' # str_nat k"
  shows "qs = concat (function_quads ds (QuadrupleGenerator (Program ds))) \<and>
    (\<forall>seg\<in>set (function_quads ds (QuadrupleGenerator (Program ds))). \<forall>q\<in>set seg.
       is_jump q \<longrightarrow>
       (\<exists>l. jump_target q = AStr l \<and> count_list seg (label_quad l) = 1 \<and>
            count_list qs (label_quad l) = 1))"
proof -
  let ?g = "QuadrupleGenerator (Program ds)"
  have r: "reset ?g = ?g" by (simp add: reset_def QuadrupleGenerator_def)
  have a: "ast ?g = Program ds" by (simp add: QuadrupleGenerator_def)
  from assms(1) obtain u g' where run: "process_each_declaration ds ?g = (Inr u, g')"
    and qs: "qs = quadruples g'"
    by (auto simp: generate_quadruples_def generate_def r a process_program_def
        split: prod.splits sum.splits)
  have st: "loop_stack ?g = []" "quadruples ?g = []" by (simp_all add: QuadrupleGenerator_def)
  from assms(2) have nm: "\<forall>d\<in>set ds. \<forall>k. fdecl_name d \<noteq> lab k" by (simp add: lab_def)
  from each_declaration_segs [OF run st(1) nm] st(2) qs
  have c: "qs = concat (function_quads ds ?g)"
    and ok: "segs_ok (label_counter ?g) (label_counter g') (function_quads ds ?g)"
    by auto
  show ?thesis
  proof (intro conjI ballI impI)
    show "qs = concat (function_quads ds ?g)" by (rule c)
  next
    fix seg q
    assume "seg \<in> set (function_quads ds ?g)" "q \<in> set seg" "is_jump q"
    from segs_ok_jump [OF ok this] c
    show "\<exists>l. jump_target q = AStr l \<and> count_list seg (label_quad l) = 1 \<and>
            count_list qs (label_quad l) = 1"
      by (auto simp: count_label_quad)
  qed
qed

subsection \<open>Running the generator on a concrete program\<close>

lemmas gen_eval =
  generate_quadruples_def generate_def QuadrupleGenerator_def reset_def process_program_def
  gbind_def greturn_def emit_def new_temp_def new_label_def push_loop_def pop_loop_def
  label_quad_def set_current_function_def append_default_return_def has_return_def
  process_parameter_def process_assignment_def process_return_stmt_def
  process_break_stmt_def process_continue_stmt_def process_variable_decl_def
  str_nat.simps str_int_def
  process_block.simps process_elements.simps process_statement.simps process_if_stmt.simps
  process_while_stmt.simps process_for_stmt.simps process_loop_stmt.simps

text \<open>
  Claim C1 (return insertion for every function). The claim asks that the quads of
  every function of a program, the second and later ones included, contain a
  \<^verbatim>\<open>return\<close> quad. For \<^verbatim>\<open>fn f() { return; } fn g() {}\<close> the generator emits no
  \<^verbatim>\<open>return\<close> after the entry label of \<^verbatim>\<open>g\<close>: the test in \<^verbatim>\<open>_process_function\<close> finds the
  \<^verbatim>\<open>return\<close> quad of \<^verbatim>\<open>f\<close> in the shared list. The quads of \<^verbatim>\<open>g\<close> are the single entry
  label that ends the list.
\<close>

theorem second_function_gets_no_return:
  "generate_quadruples (Program
     [FunctionDecl ''f'' [] TNone (FunctionExprBlock [ReturnStmt None]),
      FunctionDecl ''g'' [] TNone (FunctionExprBlock [])])
   = Inr [(''f:'', ANone, ANone, ANone), (''return'', ANone, ANone, ANone),
          (''g:'', ANone, ANone, ANone)]"
  by (simp add: gen_eval)

text \<open>
  Claim C4 (a declaration among the elements of a function body emits \<^verbatim>\<open>declare\<close> and
  the copy of its initializer). For
  \<^verbatim>\<open>fn program_2_3__1() { let mut a:i32=1; let mut b=1; }\<close> the generator emits the entry
  label and the default return only: the dispatch of \<^verbatim>\<open>_process_elements\<close> tests for the
  tag \<^verbatim>\<open>'VariableDecl'\<close>, and the parser tags the declaration \<^verbatim>\<open>'VarDecl'\<close>.
\<close>

theorem var_decl_in_body_emits_nothing:
  "generate_quadruples (Program
     [FunctionDecl ''program_2_3__1'' [] TNone
        (FunctionExprBlock [VarDecl True ''a'' I32 (Some (Literal 1)),
                            VarDecl True ''b'' TNone (Some (Literal 1))])])
   = Inr [(''program_2_3__1:'', ANone, ANone, ANone), (''return'', ANone, ANone, ANone)]"
  by (simp add: gen_eval)


lemma keeps_program: "keeps (process_program p)"
proof -
  have ps: "keeps (process_each_parameter ps)" for ps
    by (induction ps) (auto intro!: keeps_intros simp: process_parameter_def)
  have f: "keeps (process_function d)" for d
    by (cases d) (auto intro!: keeps_intros keeps_stmt ps)
  have "keeps (process_each_declaration ds)" for ds
    by (induction ds) (auto intro!: keeps_intros f)
  then show ?thesis by (simp add: process_program_def)
qed

lemma reset_cong: "ast g1 = ast g2 \<Longrightarrow> reset g1 = reset g2"
  by (cases g1, cases g2) (simp add: reset_def)

lemma ast_generate: "ast (snd (generate g)) = ast g"
proof -
  have "ast (snd (process_program (ast (reset g)) (reset g))) = ast (reset g)"
    using keeps_program [of "ast (reset g)"] by (simp add: keeps_def)
  then show ?thesis
    by (auto simp: generate_def reset_def split: prod.splits sum.splits)
qed

text \<open>
  Claim C10 (repeated \<^verbatim>\<open>generate()\<close> calls). A second call on the instance left by the
  first one gives the same outcome, the same quad list or the same exception, and leaves
  the same instance; and the outcome of a call does not depend on the quad list, the two
  counters, the loop stack or the current-function name the instance holds when the call
  starts, since \<^verbatim>\<open>_reset\<close> overwrites all five before the traversal.
\<close>

theorem generate_idempotent:
  "generate (snd (generate g)) = generate g \<and>
   generate (g\<lparr>quadruples := qs, temp_counter := t, label_counter := l, loop_stack := ls,
              current_function := cf\<rparr>) = generate g"
proof
  have "reset (snd (generate g)) = reset g"
    by (rule reset_cong) (rule ast_generate)
  then show "generate (snd (generate g)) = generate g"
    by (simp add: generate_def)
next
  have "reset (g\<lparr>quadruples := qs, temp_counter := t, label_counter := l, loop_stack := ls,
              current_function := cf\<rparr>) = reset g"
    by (rule reset_cong) simp
  then show "generate (g\<lparr>quadruples := qs, temp_counter := t, label_counter := l,
       loop_stack := ls, current_function := cf\<rparr>) = generate g"
    by (simp add: generate_def)
qed

text \<open>
  Claim C7 (lowering of a while statement). The claim asks that the generator emits the
  start label, the condition, the \<^verbatim>\<open>ifz\<close>, the body, the \<^verbatim>\<open>goto\<close> and the end label for
  every \<open>WhileStmt\<close>. For
  \<^verbatim>\<open>fn f(mut a:i32) { if a>0 { } else if a<0 { while a<0 { a=a+1; } } }\<close> the generator
  emits nothing for the \<^verbatim>\<open>while\<close>: the list holds the two labels of the outer \<^verbatim>\<open>if\<close> and no
  label, \<^verbatim>\<open>ifz\<close> or \<^verbatim>\<open>goto\<close> of a loop, and not even the condition of the \<^verbatim>\<open>else if\<close>. The
  parser stores the \<open>IfStmt\<close> of an \<^verbatim>\<open>else if\<close> as the else-part, \<^verbatim>\<open>_process_if_stmt\<close> hands
  the else-part to \<^verbatim>\<open>_process_block\<close>, and \<^verbatim>\<open>_process_block\<close> has branches for
  \<open>FunctionExprBlock\<close> and \<open>Block\<close> only.
\<close>

theorem while_under_else_if_emits_nothing:
  "generate_quadruples (Program
     [FunctionDecl ''f'' [Param True ''a'' I32] TNone
        (FunctionExprBlock
           [IfStmt (BinaryExpression Gt (Identifier ''a'') (Literal 0)) (Block [])
              (Some (IfStmt (BinaryExpression Lt (Identifier ''a'') (Literal 0))
                       (Block [WhileStmt (BinaryExpression Lt (Identifier ''a'') (Literal 0))
                                 (Block [Assignment (Identifier ''a'')
                                           (BinaryExpression Plus (Identifier ''a'') (Literal 1))])])
                       None))])])
   = Inr [(''f:'', ANone, ANone, ANone), (''param'', AStr ''a'', ANone, ANone),
          (''>'', AStr ''a'', AStr ''0'', AStr ''t0''),
          (''ifz'', AStr ''t0'', ANone, AStr ''L0''),
          (''goto'', ANone, ANone, AStr ''L1''),
          (''L0:'', ANone, ANone, ANone), (''L1:'', ANone, ANone, ANone),
          (''return'', ANone, ANone, ANone)]"
  by (simp add: gen_eval)

text \<open>
  The example of the claim, \<^verbatim>\<open>fn h(mut n: i32) { while n > 0 { n = n - 1; } }\<close>, where the
  \<^verbatim>\<open>while\<close> is an element of the function body and is dispatched: one start label \<^verbatim>\<open>L0:\<close>,
  one end label \<^verbatim>\<open>L1:\<close>, the conditional jump \<^verbatim>\<open>ifz\<close>, and the decrement as
  \<^verbatim>\<open>('-', n, 1, t1)\<close> followed by \<^verbatim>\<open>('=', t1, None, n)\<close>.
\<close>

lemma while_in_function_body:
  "generate_quadruples (Program [FunctionDecl ''h'' [Param True ''n'' I32] TNone
      (FunctionExprBlock [WhileStmt (BinaryExpression Gt (Identifier ''n'') (Literal 0))
         (Block [Assignment (Identifier ''n'')
                   (BinaryExpression Minus (Identifier ''n'') (Literal 1))])])]) =
      Inr [(''h:'', ANone, ANone, ANone), (''param'', AStr ''n'', ANone, ANone),
           (''L0:'', ANone, ANone, ANone),
           (''>'', AStr ''n'', AStr ''0'', AStr ''t0''),
           (''ifz'', AStr ''t0'', ANone, AStr ''L1''),
           (''-'', AStr ''n'', AStr ''1'', AStr ''t1''),
           (''='', AStr ''t1'', ANone, AStr ''n''),
           (''goto'', ANone, ANone, AStr ''L0''), (''L1:'', ANone, ANone, ANone),
           (''return'', ANone, ANone, ANone)]"
  by (simp add: gen_eval)

text \<open>
  Claim C6 as stated fails for \<^verbatim>\<open>fn L0() { loop { } }\<close>: the entry label of the function
  is the quad \<^verbatim>\<open>('L0:', None, None, None)\<close>, the same quad as the label of the loop start,
  so the target \<^verbatim>\<open>L0\<close> of the \<^verbatim>\<open>goto\<close> occurs twice as a label quad.
\<close>

theorem label_clash_with_function_name:
  "generate_quadruples (Program
     [FunctionDecl ''L0'' [] TNone (FunctionExprBlock [LoopStmt (Block [])])])
   = Inr [(''L0:'', ANone, ANone, ANone), (''L0:'', ANone, ANone, ANone),
          (''goto'', ANone, ANone, AStr ''L0''), (''L1:'', ANone, ANone, ANone),
          (''return'', ANone, ANone, ANone)] \<and>
   count_list [(''L0:'', ANone, ANone, ANone), (''L0:'', ANone, ANone, ANone),
          (''goto'', ANone, ANone, AStr ''L0''), (''L1:'', ANone, ANone, ANone),
          (''return'', ANone, ANone, ANone)] (label_quad ''L0'') = 2"
  by (simp add: gen_eval)

text \<open>The hypotheses of the amended C6 hold for \<^verbatim>\<open>fn f() { loop { } }\<close>.\<close>

theorem labels_well_formed_witness:
  "generate_quadruples (Program
     [FunctionDecl ''f'' [] TNone (FunctionExprBlock [LoopStmt (Block [])])])
   = Inr [(''f:'', ANone, ANone, ANone), (''L0:'', ANone, ANone, ANone),
          (''goto'', ANone, ANone, AStr ''L0''), (''L1:'', ANone, ANone, ANone),
          (''return'', ANone, ANone, ANone)] \<and>
   (\<exists>l. jump_target (''goto'', ANone, ANone, AStr ''L0'') = AStr l \<and>
        count_list [(''f:'', ANone, ANone, ANone), (''L0:'', ANone, ANone, ANone),
          (''goto'', ANone, ANone, AStr ''L0''), (''L1:'', ANone, ANone, ANone),
          (''return'', ANone, ANone, ANone)] (label_quad l) = 1)"
proof -
  let ?ds = "[FunctionDecl ''f'' [] TNone (FunctionExprBlock [LoopStmt (Block [])])]"
  let ?qs = "[(''f:'', ANone, ANone, ANone), (''L0:'', ANone, ANone, ANone),
          (''goto'', ANone, ANone, AStr ''L0''), (''L1:'', ANone, ANone, ANone),
          (''return'', ANone, ANone, ANone)]"
  have run: "generate_quadruples (Program ?ds) = Inr ?qs"
    by (simp add: gen_eval)
  have nm: "\<forall>d\<in>set ?ds. \<forall>k. fdecl_name d \<noteq> CHR ''L'' # str_nat k"
    by simp
  have fq: "function_quads ?ds (QuadrupleGenerator (Program ?ds)) = [?qs]"
    by (simp add: gen_eval)
  have "(''goto'', ANone, ANone, AStr ''L0'') \<in> set ?qs"
    "is_jump (''goto'', ANone, ANone, AStr ''L0'')"
    by (simp_all add: is_jump_def)
  with labels_well_formed [OF run nm] fq run show ?thesis
    by auto
qed

end
